theory Spec2Isabelle
  imports Main "HOL-Library.Sublist"
begin

section \<open>Strings\<close>

text \<open>
  A JavaScript string is modelled as a \<^typ>\<open>string\<close>, one \<^typ>\<open>char\<close> per code unit;
  the model covers the ASCII range, where \<open>length\<close> is the JavaScript \<open>length\<close>.
\<close>

abbreviation backslash :: char where
  "backslash \<equiv> CHR 0x5C"

definition startsWith :: "string \<Rightarrow> string \<Rightarrow> bool" where
  "startsWith x p = prefix p x"

definition endsWith :: "string \<Rightarrow> string \<Rightarrow> bool" where
  "endsWith x s = suffix s x"

text \<open>
  \<open>String.prototype.trim\<close> removes white space and line terminators from both ends:
  in the ASCII range these are tab, line feed, vertical tab, form feed, carriage return
  and space.
\<close>

definition isWhiteSpace :: "char \<Rightarrow> bool" where
  "isWhiteSpace c = (c \<in> set [CHR 0x09, CHR 0x0A, CHR 0x0B, CHR 0x0C, CHR 0x0D, CHR 0x20])"

definition trim :: "string \<Rightarrow> string" where
  "trim s = rev (dropWhile isWhiteSpace (rev (dropWhile isWhiteSpace s)))"

text \<open>\<open>x.split("/")\<close>: the segments between the separators, \<open>[""]\<close> for the empty string.\<close>

fun split :: "char \<Rightarrow> string \<Rightarrow> string list" where
  "split sep [] = [[]]"
| "split sep (c # cs) =
     (if c = sep then [] # split sep cs
      else (case split sep cs of
              [] \<Rightarrow> [[c]]
            | part # parts \<Rightarrow> (c # part) # parts))"

text \<open>\<open>Array.from(new Set(xs))\<close>: a set keeps the first occurrence of each value, in
  insertion order.\<close>

definition arrayFromSet :: "'a list \<Rightarrow> 'a list" where
  "arrayFromSet xs = fold (\<lambda>x acc. if x \<in> set acc then acc else acc @ [x]) xs []"

section \<open>The literal prefix of a pattern\<close>

definition isRegexMetaChar :: "char \<Rightarrow> bool" where
  "isRegexMetaChar ch = (ch \<in> set (''.+*?^$()[]{}|'' @ [backslash]))"

text \<open>
  The \<open>for\<close> loop of \<open>extractLiteralPrefix\<close> over the characters from \<open>startIndex\<close> on,
  with its two variables \<open>escaped\<close> and \<open>out\<close>; \<open>break\<close> returns \<open>out\<close>.
\<close>

fun scanLiteral :: "bool \<Rightarrow> string \<Rightarrow> string \<Rightarrow> string" where
  "scanLiteral escaped out [] = out"
| "scanLiteral escaped out (ch # rest) =
     (if escaped then scanLiteral False (out @ [ch]) rest
      else if ch = backslash then scanLiteral True out rest
      else if isRegexMetaChar ch then out
      else scanLiteral False (out @ [ch]) rest)"

definition extractLiteralPrefix :: "string \<Rightarrow> string" where
  "extractLiteralPrefix pattern =
     (let s0 = trim pattern;
          s1 = (if startsWith s0 ''^'' then drop 1 s0 else s0);
          s = (if startsWith s1 ''./'' then drop 2 s1 else s1)
      in if startsWith s [backslash, CHR ''.''] then scanLiteral False ''.'' (drop 2 s)
         else if startsWith s ''.'' then scanLiteral False ''.'' (drop 1 s)
         else scanLiteral False [] s)"

definition isHiddenPathPrefix :: "string \<Rightarrow> bool" where
  "isHiddenPathPrefix p =
     (if startsWith p ''.'' then True
      else list_ex (\<lambda>part. startsWith part ''.'') (split CHR ''/'' p))"

text \<open>
  The body of the loop of \<open>getHiddenAllowListRoots\<close> for one entry \<open>raw\<close>, with the
  array \<open>roots\<close> it pushes to.
\<close>

definition allowListStep :: "string \<Rightarrow> string list \<Rightarrow> string list" where
  "allowListStep raw roots =
     (let trimmed = trim raw in
      if trimmed = [] then roots
      else (let pre = extractLiteralPrefix trimmed in
            if length pre > 1 \<and> isHiddenPathPrefix pre then roots @ [pre] else roots))"

text \<open>The argument is \<open>None\<close> for \<open>undefined\<close> or \<open>null\<close>, which \<open>??\<close> replaces by \<open>[]\<close>.\<close>

definition getHiddenAllowListRoots :: "string list option \<Rightarrow> string list" where
  "getHiddenAllowListRoots onlyAllowPaths =
     arrayFromSet (fold allowListStep (case onlyAllowPaths of None \<Rightarrow> [] | Some ps \<Rightarrow> ps) [])"

section \<open>Storage, entities and failures\<close>

text \<open>
  What \<open>statFix\<close> resolves to: the metadata of a path, with \<open>mtime = None\<close> for an
  undefined or null modification time.
\<close>

record stat =
  stype :: string
  mtime :: "int option"
  ssize :: int

text \<open>
  The three outcomes of \<open>await statFix(vault, x)\<close>: the promise rejects, it resolves to
  \<open>undefined\<close> or \<open>null\<close>, or it resolves to a \<open>stat\<close>.
\<close>

datatype statOutcome = StatRejected | StatAbsent | StatOk stat

record listedFiles =
  files :: "string list"
  folders :: "string list"

text \<open>The vault: \<open>vault.adapter.list(x)\<close>, with \<open>None\<close> when the promise rejects.\<close>

record vault =
  adapter_list :: "string \<Rightarrow> listedFiles option"

text \<open>
  The two functions imported from \<open>./misc\<close>, whose code is not part of the module: they
  are parameters of the model.
\<close>

record misc =
  isSpecialFolderNameToSkip :: "string \<Rightarrow> string list \<Rightarrow> bool"
  statFix :: "vault \<Rightarrow> string \<Rightarrow> statOutcome"

text \<open>The fields of an \<open>Entity\<close> that the listers set.\<close>

record entity =
  key :: string
  keyRaw :: string
  mtimeCli :: "int option"
  mtimeSvr :: "int option"
  sizeE :: int
  sizeRaw :: int

text \<open>What the asynchronous function mapped over a chunk resolves to.\<close>

record fetched =
  itself :: entity
  children :: "listedFiles option"

text \<open>
  Every way a call can reject: \<open>statFix\<close> rejects; the error "something goes wrong while
  listing hidden folder"; the error "File in Obsidian ... has last modified time 0", with
  \<open>configDir\<close> and the path; \<open>vault.adapter.list\<close> rejects; the \<open>TypeError\<close> of reading
  \<open>statRes.type\<close> when \<open>statRes\<close> is \<open>undefined\<close> or \<open>null\<close>.
\<close>

datatype error =
    StatFixRejected
  | ListHiddenFolderError
  | LastModifiedZero string string
  | AdapterListRejected
  | TypeErrorNoStat

text \<open>
  \<open>await Promise.all(r)\<close> over promises that have no effect on each other: the values in
  input order, or a rejection, taken here to be the leftmost one.
\<close>

fun promiseAll :: "(error + 'a) list \<Rightarrow> error + 'a list" where
  "promiseAll [] = Inr []"
| "promiseAll (Inl e # rs) = Inl e"
| "promiseAll (Inr v # rs) =
     (case promiseAll rs of Inl e \<Rightarrow> Inl e | Inr vs \<Rightarrow> Inr (v # vs))"

text \<open>\<open>chunk\<close> of lodash: consecutive groups of \<open>n\<close> elements, the last one shorter.\<close>

function chunk :: "'a list \<Rightarrow> nat \<Rightarrow> 'a list list" where
  "chunk xs n = (if xs = [] \<or> n < 1 then [] else take n xs # chunk (drop n xs) n)"
  by pat_completeness auto
termination
  by (relation "measure (\<lambda>(xs, n). length xs)") auto

declare chunk.simps [simp del]

definition CHUNK_SIZE :: nat where
  "CHUNK_SIZE = 10"

text \<open>The object literal \<open>itself\<close>, the same in both listers.\<close>

definition entityOf :: "string \<Rightarrow> stat \<Rightarrow> entity" where
  "entityOf x statRes =
     (let isFolder = (stype statRes = ''folder'') in
      \<lparr> key = (if isFolder then x @ ''/'' else x),
        keyRaw = (if isFolder then x @ ''/'' else x),
        mtimeCli = mtime statRes,
        mtimeSvr = mtime statRes,
        sizeE = ssize statRes,
        sizeRaw = ssize statRes \<rparr>)"

section \<open>Listing the configuration folder\<close>

definition isPluginDirItself :: "string \<Rightarrow> string \<Rightarrow> bool" where
  "isPluginDirItself x pluginId =
     (x = pluginId \<or> x = pluginId @ ''/'' \<or>
      endsWith x (''/'' @ pluginId) \<or> endsWith x (''/'' @ pluginId @ ''/''))"

definition reqFiles :: "string list" where
  "reqFiles = [''data.json'', ''main.js'', ''manifest.json'', ''.gitignore'', ''styles.css'']"

definition isLikelyPluginSubFiles :: "string \<Rightarrow> bool" where
  "isLikelyPluginSubFiles x =
     list_ex (\<lambda>iterator. x = iterator \<or> endsWith x (''/'' @ iterator)) reqFiles"

text \<open>The asynchronous function that \<open>listFilesInObsFolder\<close> maps over a chunk.\<close>

definition fetchObs :: "misc \<Rightarrow> string \<Rightarrow> vault \<Rightarrow> string \<Rightarrow> error + fetched" where
  "fetchObs m configDir vlt x =
     (case statFix m vlt x of
        StatRejected \<Rightarrow> Inl StatFixRejected
      | StatAbsent \<Rightarrow> Inl ListHiddenFolderError
      | StatOk statRes \<Rightarrow>
          (if stype statRes = ''folder'' then
             (case adapter_list vlt x of
                None \<Rightarrow> Inl AdapterListRejected
              | Some ch \<Rightarrow> Inr \<lparr> itself = entityOf x statRes, children = Some ch \<rparr>)
           else if mtime statRes = None \<or> mtime statRes = Some 0 then
             Inl (LastModifiedZero configDir x)
           else Inr \<lparr> itself = entityOf x statRes, children = None \<rparr>))"

text \<open>
  The two tests before \<open>q.push(iter2)\<close>: a child is pushed when neither \<open>continue\<close> is
  taken.
\<close>

definition keepChild :: "misc \<Rightarrow> bool \<Rightarrow> string \<Rightarrow> bool" where
  "keepChild m isInsideSelfPlugin iter2 =
     (if isSpecialFolderNameToSkip m iter2 [''workspace'', ''workspace.json''] then False
      else if isInsideSelfPlugin \<and> \<not> isLikelyPluginSubFiles iter2 then False
      else True)"

text \<open>The children that processing one fetched item pushes: the folders, then the files.\<close>

definition pushedObs :: "misc \<Rightarrow> string \<Rightarrow> fetched \<Rightarrow> string list" where
  "pushedObs m pluginId iter =
     (let isInsideSelfPlugin = isPluginDirItself (key (itself iter)) pluginId in
      case children iter of
        None \<Rightarrow> []
      | Some ch \<Rightarrow> filter (keepChild m isInsideSelfPlugin) (folders ch)
                 @ filter (keepChild m isInsideSelfPlugin) (files ch))"

text \<open>The body of \<open>for (const iter of r2)\<close>, on the queue and the contents.\<close>

definition processObs ::
  "misc \<Rightarrow> string \<Rightarrow> fetched \<Rightarrow> string list \<times> entity list \<Rightarrow> string list \<times> entity list" where
  "processObs m pluginId iter qc =
     (fst qc @ pushedObs m pluginId iter, snd qc @ [itself iter])"

text \<open>The loop over the chunks of one level: a rejection ends the whole call.\<close>

fun obsChunks ::
  "misc \<Rightarrow> string \<Rightarrow> vault \<Rightarrow> string \<Rightarrow> string list list
     \<Rightarrow> string list \<times> entity list \<Rightarrow> error + string list \<times> entity list" where
  "obsChunks m configDir vlt pluginId [] qc = Inr qc"
| "obsChunks m configDir vlt pluginId (singleChunk # rest) qc =
     (case promiseAll (map (fetchObs m configDir vlt) singleChunk) of
        Inl e \<Rightarrow> Inl e
      | Inr r2 \<Rightarrow> obsChunks m configDir vlt pluginId rest (fold (processObs m pluginId) r2 qc))"

text \<open>
  The variables of the outer \<open>while\<close> loop. The queue is first in, first out: \<open>pop\<close> takes
  the head and \<open>push\<close> appends.
\<close>

record obsState =
  queue :: "string list"
  contents :: "entity list"
  iterRound :: nat

text \<open>
  The outer loop, which need not end on a storage that lists without end: \<open>fuel\<close> bounds
  the number of rounds, and \<open>None\<close> is a loop that has not ended within them.
\<close>

fun obsLoop ::
  "nat \<Rightarrow> misc \<Rightarrow> string \<Rightarrow> vault \<Rightarrow> string \<Rightarrow> bool \<Rightarrow> obsState \<Rightarrow> (error + obsState) option" where
  "obsLoop 0 m configDir vlt pluginId bookmarksOnly st =
     (if queue st = [] then Some (Inr st) else None)"
| "obsLoop (Suc fuel) m configDir vlt pluginId bookmarksOnly st =
     (if queue st = [] then Some (Inr st)
      else (case obsChunks m configDir vlt pluginId (chunk (queue st) CHUNK_SIZE)
                   ([], contents st) of
              Inl e \<Rightarrow> Some (Inl e)
            | Inr qc \<Rightarrow>
                if bookmarksOnly \<and> iterRound st > 1 then
                  Some (Inr \<lparr> queue = fst qc, contents = snd qc, iterRound = iterRound st \<rparr>)
                else obsLoop fuel m configDir vlt pluginId bookmarksOnly
                       \<lparr> queue = fst qc, contents = snd qc, iterRound = iterRound st + 1 \<rparr>))"

definition obsInit :: "string \<Rightarrow> obsState" where
  "obsInit configDir = \<lparr> queue = [configDir], contents = [], iterRound = 0 \<rparr>"

definition bookmarksFilter :: "string \<Rightarrow> entity list \<Rightarrow> entity list" where
  "bookmarksFilter configDir es =
     filter (\<lambda>e. key e = configDir @ ''/'' \<or> key e = configDir @ ''/bookmarks.json'') es"

definition listFilesInObsFolder ::
  "nat \<Rightarrow> misc \<Rightarrow> string \<Rightarrow> vault \<Rightarrow> string \<Rightarrow> bool \<Rightarrow> (error + entity list) option" where
  "listFilesInObsFolder fuel m configDir vlt pluginId bookmarksOnly =
     (case obsLoop fuel m configDir vlt pluginId bookmarksOnly (obsInit configDir) of
        None \<Rightarrow> None
      | Some (Inl e) \<Rightarrow> Some (Inl e)
      | Some (Inr st) \<Rightarrow>
          Some (Inr (if bookmarksOnly then bookmarksFilter configDir (contents st)
                     else contents st)))"

section \<open>Listing from arbitrary roots\<close>

definition uniqueRoots :: "string list \<Rightarrow> string list" where
  "uniqueRoots roots = filter (\<lambda>r. r \<noteq> []) (map trim (arrayFromSet roots))"

text \<open>
  The asynchronous function that \<open>listFilesByAdapterPaths\<close> maps over a chunk: it resolves
  to \<open>undefined\<close> (\<open>None\<close>) when \<open>statFix\<close> rejects; reading \<open>statRes.type\<close> is outside the
  \<open>try\<close>.
\<close>

definition fetchRoots :: "misc \<Rightarrow> vault \<Rightarrow> string \<Rightarrow> error + fetched option" where
  "fetchRoots m vlt x =
     (case statFix m vlt x of
        StatRejected \<Rightarrow> Inr None
      | StatAbsent \<Rightarrow> Inl TypeErrorNoStat
      | StatOk statRes \<Rightarrow>
          (if stype statRes = ''folder'' then
             (case adapter_list vlt x of
                None \<Rightarrow> Inl AdapterListRejected
              | Some ch \<Rightarrow> Inr (Some \<lparr> itself = entityOf x statRes, children = Some ch \<rparr>))
           else Inr (Some \<lparr> itself = entityOf x statRes, children = None \<rparr>)))"

definition processRoots ::
  "fetched option \<Rightarrow> string list \<times> entity list \<Rightarrow> string list \<times> entity list" where
  "processRoots iter qc =
     (case iter of
        None \<Rightarrow> qc
      | Some it \<Rightarrow>
          (case children it of
             None \<Rightarrow> (fst qc, snd qc @ [itself it])
           | Some ch \<Rightarrow> (fst qc @ folders ch @ files ch, snd qc @ [itself it])))"

fun rootsChunks ::
  "misc \<Rightarrow> vault \<Rightarrow> string list list
     \<Rightarrow> string list \<times> entity list \<Rightarrow> error + string list \<times> entity list" where
  "rootsChunks m vlt [] qc = Inr qc"
| "rootsChunks m vlt (singleChunk # rest) qc =
     (case promiseAll (map (fetchRoots m vlt) singleChunk) of
        Inl e \<Rightarrow> Inl e
      | Inr r2 \<Rightarrow> rootsChunks m vlt rest (fold processRoots r2 qc))"

fun rootsLoop ::
  "nat \<Rightarrow> misc \<Rightarrow> vault \<Rightarrow> string list \<Rightarrow> entity list \<Rightarrow> (error + entity list) option" where
  "rootsLoop 0 m vlt q cs = (if q = [] then Some (Inr cs) else None)"
| "rootsLoop (Suc fuel) m vlt q cs =
     (if q = [] then Some (Inr cs)
      else (case rootsChunks m vlt (chunk q CHUNK_SIZE) ([], cs) of
              Inl e \<Rightarrow> Some (Inl e)
            | Inr qc \<Rightarrow> rootsLoop fuel m vlt (fst qc) (snd qc)))"

definition listFilesByAdapterPaths ::
  "nat \<Rightarrow> misc \<Rightarrow> string list \<Rightarrow> vault \<Rightarrow> (error + entity list) option" where
  "listFilesByAdapterPaths fuel m roots vlt = rootsLoop fuel m vlt (uniqueRoots roots) []"

section \<open>Reserved names and example storages\<close>

text \<open>
  Modelled from the spec: the code of \<open>isSpecialFolderNameToSkip\<close> is missing; its
  contract there is to hold when the name equals an entry of the reserved list or ends
  with \<open>/\<close> and the entry.
\<close>

definition skipBySpec :: "string \<Rightarrow> string list \<Rightarrow> bool" where
  "skipBySpec name reservedList =
     list_ex (\<lambda>entry. name = entry \<or> endsWith name (''/'' @ entry)) reservedList"

text \<open>A key that is, or ends with the path segment, \<open>workspace\<close> or \<open>workspace.json\<close>.\<close>

definition reservedName :: "string \<Rightarrow> bool" where
  "reservedName k =
     (k = ''workspace'' \<or> k = ''workspace.json'' \<or>
      endsWith k ''/workspace'' \<or> endsWith k ''/workspace.json'')"

text \<open>
  Storages given by tables, for the examples: \<open>statFix\<close> rejects on a path that is not
  in its table, and \<open>vault.adapter.list\<close> rejects on a path that is not in its own.
\<close>

definition tableMisc :: "(string \<times> statOutcome) list \<Rightarrow> misc" where
  "tableMisc tbl =
     \<lparr> isSpecialFolderNameToSkip = skipBySpec,
       statFix = (\<lambda>vlt x. case map_of tbl x of None \<Rightarrow> StatRejected | Some r \<Rightarrow> r) \<rparr>"

definition tableVault :: "(string \<times> listedFiles) list \<Rightarrow> vault" where
  "tableVault tbl = \<lparr> adapter_list = map_of tbl \<rparr>"

definition aFolder :: statOutcome where
  "aFolder = StatOk \<lparr> stype = ''folder'', mtime = None, ssize = 0 \<rparr>"

definition aFile :: statOutcome where
  "aFile = StatOk \<lparr> stype = ''file'', mtime = Some 1700000000000, ssize = 42 \<rparr>"

definition folderEntity :: "string \<Rightarrow> entity" where
  "folderEntity k =
     \<lparr> key = k, keyRaw = k, mtimeCli = None, mtimeSvr = None, sizeE = 0, sizeRaw = 0 \<rparr>"

definition fileEntity :: "string \<Rightarrow> entity" where
  "fileEntity k =
     \<lparr> key = k, keyRaw = k, mtimeCli = Some 1700000000000, mtimeSvr = Some 1700000000000,
       sizeE = 42, sizeRaw = 42 \<rparr>"

text \<open>
  A configuration folder with a bookmarks file, a workspace file and the plugin's own
  folder, which holds \<open>data.json\<close> and \<open>secret.db\<close>.
\<close>

definition configMisc :: misc where
  "configMisc = tableMisc
     [(''.obsidian'', aFolder),
      (''.obsidian/plugins'', aFolder),
      (''.obsidian/bookmarks.json'', aFile),
      (''.obsidian/workspace.json'', aFile),
      (''.obsidian/plugins/remotely-save'', aFolder),
      (''.obsidian/plugins/remotely-save/data.json'', aFile),
      (''.obsidian/plugins/remotely-save/secret.db'', aFile)]"

definition configVault :: vault where
  "configVault = tableVault
     [(''.obsidian'',
         \<lparr> files = [''.obsidian/bookmarks.json'', ''.obsidian/workspace.json''],
           folders = [''.obsidian/plugins''] \<rparr>),
      (''.obsidian/plugins'',
         \<lparr> files = [], folders = [''.obsidian/plugins/remotely-save''] \<rparr>),
      (''.obsidian/plugins/remotely-save'',
         \<lparr> files = [''.obsidian/plugins/remotely-save/data.json'',
                    ''.obsidian/plugins/remotely-save/secret.db''],
           folders = [] \<rparr>)]"

text \<open>A chain of four nested folders.\<close>

definition chainMisc :: misc where
  "chainMisc = tableMisc
     [(''c'', aFolder), (''c/1'', aFolder), (''c/1/2'', aFolder), (''c/1/2/3'', aFolder)]"

definition chainVault :: vault where
  "chainVault = tableVault
     [(''c'', \<lparr> files = [], folders = [''c/1''] \<rparr>),
      (''c/1'', \<lparr> files = [], folders = [''c/1/2''] \<rparr>),
      (''c/1/2'', \<lparr> files = [], folders = [''c/1/2/3''] \<rparr>),
      (''c/1/2/3'', \<lparr> files = [], folders = [] \<rparr>)]"



text \<open>
  Plain files: one named \<open>workspace\<close>, one whose path ends in a slash, one ordinary; on
  \<open>gone\<close> the metadata resolves to nothing, and on any other path \<open>statFix\<close> rejects.
\<close>

definition filesMisc :: misc where
  "filesMisc = tableMisc
     [(''workspace'', aFile), (''a/'', aFile), (''ok'', aFile), (''gone'', StatAbsent)]"

definition filesVault :: vault where
  "filesVault = tableVault []"

section \<open>Auxiliary definitions\<close>

text \<open>What processing one item of \<open>listFilesByAdapterPaths\<close> pushes, and what it adds.\<close>

definition pushedRoots :: "fetched option \<Rightarrow> string list" where
  "pushedRoots iter =
     (case iter of
        None \<Rightarrow> []
      | Some it \<Rightarrow> (case children it of None \<Rightarrow> [] | Some ch \<Rightarrow> folders ch @ files ch))"

definition addedRoots :: "fetched option \<Rightarrow> entity list" where
  "addedRoots iter = (case iter of None \<Rightarrow> [] | Some it \<Rightarrow> [itself it])"






section \<open>Lemmas on strings and the literal prefix\<close>












section \<open>Lemmas on \<open>Promise.all\<close>, chunks and levels\<close>

lemma promiseAll_append:
  "promiseAll (rs @ ss) =
     (case promiseAll rs of
        Inl e \<Rightarrow> Inl e
      | Inr vs \<Rightarrow> (case promiseAll ss of Inl e \<Rightarrow> Inl e | Inr ws \<Rightarrow> Inr (vs @ ws)))"
  by (induction rs rule: promiseAll.induct) (auto split: sum.splits)

lemma promiseAll_map_Inr: "promiseAll (map Inr vs) = Inr vs"
  by (induction vs) auto

lemma promiseAll_Inr_D: "promiseAll rs = Inr vs \<Longrightarrow> rs = map Inr vs"
  by (induction rs arbitrary: vs rule: promiseAll.induct) (auto split: sum.splits)

lemma promiseAll_Inr_iff: "promiseAll rs = Inr vs \<longleftrightarrow> rs = map Inr vs"
  using promiseAll_map_Inr promiseAll_Inr_D by blast

lemma promiseAll_Inl_mem: "promiseAll rs = Inl e \<Longrightarrow> Inl e \<in> set rs"
  by (induction rs rule: promiseAll.induct) (auto split: sum.splits)


lemma concat_chunk: "1 \<le> n \<Longrightarrow> concat (chunk xs n) = xs"
proof (induction xs n rule: chunk.induct)
  case (1 xs n)
  show ?case
  proof (cases "xs = []")
    case True
    then show ?thesis by (simp add: chunk.simps)
  next
    case False
    with 1 have "concat (chunk (drop n xs) n) = drop n xs" by simp
    with False 1(2) show ?thesis by (subst chunk.simps) simp
  qed
qed

lemma fold_processObs:
  "fold (processObs m pluginId) r2 qc =
     (fst qc @ concat (map (pushedObs m pluginId) r2), snd qc @ map itself r2)"
  by (induction r2 arbitrary: qc) (simp_all add: processObs_def)

lemma obsChunks_concat:
  "obsChunks m configDir vlt pluginId cs qc =
     (case promiseAll (map (fetchObs m configDir vlt) (concat cs)) of
        Inl e \<Rightarrow> Inl e
      | Inr r2 \<Rightarrow> Inr (fold (processObs m pluginId) r2 qc))"
  by (induction cs arbitrary: qc) (auto simp: promiseAll_append split: sum.splits)

lemma obsLevel:
  "obsChunks m configDir vlt pluginId (chunk q CHUNK_SIZE) ([], cs) =
     (case promiseAll (map (fetchObs m configDir vlt) q) of
        Inl e \<Rightarrow> Inl e
      | Inr r2 \<Rightarrow> Inr (concat (map (pushedObs m pluginId) r2), cs @ map itself r2))"
  by (simp add: obsChunks_concat concat_chunk CHUNK_SIZE_def fold_processObs split: sum.splits)

lemma fold_processRoots:
  "fold processRoots r2 qc =
     (fst qc @ concat (map pushedRoots r2), snd qc @ concat (map addedRoots r2))"
  by (induction r2 arbitrary: qc) (auto simp: processRoots_def pushedRoots_def addedRoots_def split: option.splits)

lemma rootsChunks_concat:
  "rootsChunks m vlt cs qc =
     (case promiseAll (map (fetchRoots m vlt) (concat cs)) of
        Inl e \<Rightarrow> Inl e
      | Inr r2 \<Rightarrow> Inr (fold processRoots r2 qc))"
  by (induction cs arbitrary: qc) (auto simp: promiseAll_append split: sum.splits)

lemma rootsLevel:
  "rootsChunks m vlt (chunk q CHUNK_SIZE) ([], cs) =
     (case promiseAll (map (fetchRoots m vlt) q) of
        Inl e \<Rightarrow> Inl e
      | Inr r2 \<Rightarrow> Inr (concat (map pushedRoots r2), cs @ concat (map addedRoots r2)))"
  by (simp add: rootsChunks_concat concat_chunk CHUNK_SIZE_def fold_processRoots split: sum.splits)

lemma map_eq_map_all2: "map f q = map g r \<longleftrightarrow> list_all2 (\<lambda>x y. f x = g y) q r"
  by (induction q arbitrary: r) (auto simp: list_all2_Cons1 Cons_eq_map_conv)

lemma all2_setR: "list_all2 P q r \<Longrightarrow> y \<in> set r \<Longrightarrow> \<exists>x \<in> set q. P x y"
  by (induction rule: list_all2_induct) auto


lemma promiseAll_map_all2:
  "promiseAll (map f q) = Inr r2 \<longleftrightarrow> list_all2 (\<lambda>x it. f x = Inr it) q r2"
  by (simp add: promiseAll_Inr_iff map_eq_map_all2)


lemma obsLoop_Suc:
  "queue st \<noteq> [] \<Longrightarrow>
   obsLoop (Suc fuel) m configDir vlt pluginId bookmarksOnly st =
     (case promiseAll (map (fetchObs m configDir vlt) (queue st)) of
        Inl e \<Rightarrow> Some (Inl e)
      | Inr r2 \<Rightarrow>
          if bookmarksOnly \<and> iterRound st > 1 then
            Some (Inr \<lparr> queue = concat (map (pushedObs m pluginId) r2),
                        contents = contents st @ map itself r2, iterRound = iterRound st \<rparr>)
          else obsLoop fuel m configDir vlt pluginId bookmarksOnly
                 \<lparr> queue = concat (map (pushedObs m pluginId) r2),
                   contents = contents st @ map itself r2, iterRound = iterRound st + 1 \<rparr>)"
  by (auto simp: obsLevel split: sum.splits)

lemma obsLoop_Nil:
  "queue st = [] \<Longrightarrow> obsLoop fuel m configDir vlt pluginId bookmarksOnly st = Some (Inr st)"
  by (cases fuel) simp_all

lemma rootsLoop_Suc:
  "q \<noteq> [] \<Longrightarrow>
   rootsLoop (Suc fuel) m vlt q cs =
     (case promiseAll (map (fetchRoots m vlt) q) of
        Inl e \<Rightarrow> Some (Inl e)
      | Inr r2 \<Rightarrow> rootsLoop fuel m vlt (concat (map pushedRoots r2))
                    (cs @ concat (map addedRoots r2)))"
  by (simp add: rootsLevel split: sum.splits)

lemma rootsLoop_Nil: "rootsLoop fuel m vlt [] cs = Some (Inr cs)"
  by (cases fuel) simp_all

declare obsLoop.simps(2) [simp del] rootsLoop.simps(2) [simp del]

lemma obsLoop_invariant:
  assumes step: "\<And>x it. Pq x \<Longrightarrow> fetchObs m configDir vlt x = Inr it \<Longrightarrow>
                   Pe (itself it) \<and> (\<forall>c \<in> set (pushedObs m pluginId it). Pq c)"
    and "obsLoop fuel m configDir vlt pluginId bookmarksOnly st = Some (Inr st')"
    and "\<forall>x \<in> set (queue st). Pq x"
    and "\<forall>e \<in> set (contents st). Pe e"
  shows "(\<forall>x \<in> set (queue st'). Pq x) \<and> (\<forall>e \<in> set (contents st'). Pe e)"
  using assms(2-)
proof (induction fuel arbitrary: st)
  case 0
  then show ?case by (auto split: if_splits)
next
  case (Suc fuel)
  show ?case
  proof (cases "queue st = []")
    case True
    with Suc.prems show ?thesis by (auto simp: obsLoop_Nil)
  next
    case False
    from Suc.prems(1) obtain r2 where
      r2: "promiseAll (map (fetchObs m configDir vlt) (queue st)) = Inr r2"
      by (auto simp: obsLoop_Suc [OF False] split: sum.splits)
    then have all2: "list_all2 (\<lambda>x it. fetchObs m configDir vlt x = Inr it) (queue st) r2"
      by (simp add: promiseAll_map_all2)
    have each: "Pe (itself it) \<and> (\<forall>c \<in> set (pushedObs m pluginId it). Pq c)"
      if "it \<in> set r2" for it
    proof -
      from that all2 obtain x where "x \<in> set (queue st)" "fetchObs m configDir vlt x = Inr it"
        by (blast dest: all2_setR)
      with Suc.prems(2) step show ?thesis by blast
    qed
    define st1 where "st1 = \<lparr> queue = concat (map (pushedObs m pluginId) r2),
       contents = contents st @ map itself r2, iterRound = iterRound st + 1 \<rparr>"
    have q1: "\<forall>x \<in> set (queue st1). Pq x" using each by (auto simp: st1_def)
    have c1: "\<forall>e \<in> set (contents st1). Pe e" using each Suc.prems(3) by (auto simp: st1_def)
    show ?thesis
    proof (cases "bookmarksOnly \<and> iterRound st > 1")
      case True
      with Suc.prems(1) r2 have "st' = st1\<lparr> iterRound := iterRound st \<rparr>"
        by (auto simp: obsLoop_Suc [OF False] st1_def)
      with q1 c1 show ?thesis by simp
    next
      case False2: False
      with Suc.prems(1) r2 have "obsLoop fuel m configDir vlt pluginId bookmarksOnly st1 = Some (Inr st')"
        by (auto simp: obsLoop_Suc [OF False] st1_def)
      from Suc.IH [OF this q1 c1] show ?thesis .
    qed
  qed
qed

lemma rootsLoop_invariant:
  assumes step: "\<And>x it. Pq x \<Longrightarrow> fetchRoots m vlt x = Inr (Some it) \<Longrightarrow>
                   Pe (itself it) \<and> (\<forall>c \<in> set (pushedRoots (Some it)). Pq c)"
    and "rootsLoop fuel m vlt q cs = Some (Inr out)"
    and "\<forall>x \<in> set q. Pq x"
    and "\<forall>e \<in> set cs. Pe e"
  shows "\<forall>e \<in> set out. Pe e"
  using assms(2-)
proof (induction fuel arbitrary: q cs)
  case 0
  then show ?case by (auto split: if_splits)
next
  case (Suc fuel)
  show ?case
  proof (cases "q = []")
    case True
    with Suc.prems show ?thesis by (auto simp: rootsLoop_Nil)
  next
    case False
    from Suc.prems(1) obtain r2 where
      r2: "promiseAll (map (fetchRoots m vlt) q) = Inr r2"
      and rest: "rootsLoop fuel m vlt (concat (map pushedRoots r2)) (cs @ concat (map addedRoots r2)) = Some (Inr out)"
      by (auto simp: rootsLoop_Suc [OF False] split: sum.splits)
    then have all2: "list_all2 (\<lambda>x it. fetchRoots m vlt x = Inr it) q r2"
      by (simp add: promiseAll_map_all2)
    have each: "Pe (itself it) \<and> (\<forall>c \<in> set (pushedRoots (Some it)). Pq c)"
      if "Some it \<in> set r2" for it
    proof -
      from that all2 obtain x where "x \<in> set q" "fetchRoots m vlt x = Inr (Some it)"
        by (blast dest: all2_setR)
      with Suc.prems(2) step show ?thesis by blast
    qed
    have q1: "\<forall>x \<in> set (concat (map pushedRoots r2)). Pq x"
    proof
      fix x assume "x \<in> set (concat (map pushedRoots r2))"
      then obtain i where "i \<in> set r2" "x \<in> set (pushedRoots i)" by auto
      then show "Pq x" using each by (cases i) (auto simp: pushedRoots_def)
    qed
    have c1: "\<forall>e \<in> set (cs @ concat (map addedRoots r2)). Pe e"
    proof
      fix e assume "e \<in> set (cs @ concat (map addedRoots r2))"
      then consider "e \<in> set cs" | i where "i \<in> set r2" "e \<in> set (addedRoots i)" by auto
      then show "Pe e"
      proof cases
        case 1 with Suc.prems(3) show ?thesis by simp
      next
        case 2 then show ?thesis using each by (cases i) (auto simp: addedRoots_def)
      qed
    qed
    from Suc.IH [OF rest q1 c1] show ?thesis .
  qed
qed

section \<open>Lemmas on the two listers\<close>

lemma key_entityOf: "key (entityOf x st) = (if stype st = ''folder'' then x @ ''/'' else x)"
  by (simp add: entityOf_def)

lemma keyRaw_entityOf: "keyRaw (entityOf x st) = key (entityOf x st)"
  by (simp add: entityOf_def Let_def)

lemma fetchObs_Inr_D:
  assumes "fetchObs m configDir vlt x = Inr it"
  obtains st where "statFix m vlt x = StatOk st" and "itself it = entityOf x st"
    and "stype st = ''folder'' \<Longrightarrow> children it = adapter_list vlt x \<and> children it \<noteq> None"
    and "stype st \<noteq> ''folder'' \<Longrightarrow> children it = None"
proof (cases "statFix m vlt x")
  case StatRejected
  with assms show ?thesis by (simp add: fetchObs_def)
next
  case StatAbsent
  with assms show ?thesis by (simp add: fetchObs_def)
next
  case (StatOk st)
  show ?thesis
  proof (cases "stype st = ''folder''")
    case True
    with StatOk assms that [of st] show ?thesis
      by (cases "adapter_list vlt x") (auto simp: fetchObs_def)
  next
    case False
    with StatOk assms that [of st] show ?thesis
      by (cases "mtime st = None \<or> mtime st = Some 0") (auto simp: fetchObs_def)
  qed
qed

lemma fetchRoots_Inr_D:
  assumes "fetchRoots m vlt x = Inr (Some it)"
  obtains st where "statFix m vlt x = StatOk st" and "itself it = entityOf x st"
    and "stype st = ''folder'' \<Longrightarrow> children it = adapter_list vlt x \<and> children it \<noteq> None"
    and "stype st \<noteq> ''folder'' \<Longrightarrow> children it = None"
proof (cases "statFix m vlt x")
  case StatRejected
  with assms show ?thesis by (simp add: fetchRoots_def)
next
  case StatAbsent
  with assms show ?thesis by (simp add: fetchRoots_def)
next
  case (StatOk st)
  show ?thesis
  proof (cases "stype st = ''folder''")
    case True
    with StatOk assms that [of st] show ?thesis
      by (cases "adapter_list vlt x") (auto simp: fetchRoots_def)
  next
    case False
    with StatOk assms that [of st] show ?thesis
      by (auto simp: fetchRoots_def)
  qed
qed








lemma obsLoop_bookmarks_rounds:
  assumes "1 \<le> fuel" and "3 \<le> fuel + iterRound st"
  shows "\<exists>r. obsLoop fuel m configDir vlt pluginId True st = Some r \<and>
             (\<forall>st'. r = Inr st' \<longrightarrow> iterRound st' \<le> max 2 (iterRound st))"
  using assms
proof (induction fuel arbitrary: st)
  case 0
  then show ?case by simp
next
  case (Suc fuel)
  show ?case
  proof (cases "queue st = []")
    case True
    then show ?thesis by (simp add: obsLoop_Nil)
  next
    case False
    show ?thesis
    proof (cases "promiseAll (map (fetchObs m configDir vlt) (queue st))")
      case (Inl e)
      then show ?thesis by (simp add: obsLoop_Suc [OF False])
    next
      case (Inr r2)
      show ?thesis
      proof (cases "iterRound st > 1")
        case True
        with Inr show ?thesis by (simp add: obsLoop_Suc [OF False])
      next
        case False1: False
        define st1 where "st1 = \<lparr> queue = concat (map (pushedObs m pluginId) r2),
          contents = contents st @ map itself r2, iterRound = iterRound st + 1 \<rparr>"
        from False1 Suc.prems have "1 \<le> fuel" "3 \<le> fuel + iterRound st1"
          by (auto simp: st1_def)
        from Suc.IH [OF this] obtain r where
          "obsLoop fuel m configDir vlt pluginId True st1 = Some r"
          "\<forall>st'. r = Inr st' \<longrightarrow> iterRound st' \<le> max 2 (iterRound st1)" by blast
        with False1 Inr show ?thesis
          by (auto simp: obsLoop_Suc [OF False] st1_def)
      qed
    qed
  qed
qed

lemma not_endsWith_snoc: "c \<noteq> d \<Longrightarrow> \<not> endsWith (x @ [c]) (s @ [d])"
  by (simp add: endsWith_def)

lemma endsWith_last: "endsWith k s \<Longrightarrow> s \<noteq> [] \<Longrightarrow> k \<noteq> [] \<and> last k = last s"
  by (auto simp: endsWith_def suffix_def)

lemma reservedName_last: "reservedName k \<Longrightarrow> k \<noteq> [] \<and> last k \<noteq> CHR ''/''"
proof -
  assume "reservedName k"
  then consider "k = ''workspace''" | "k = ''workspace.json''"
    | "endsWith k ''/workspace''" | "endsWith k ''/workspace.json''"
    by (auto simp: reservedName_def)
  then show ?thesis
  proof cases
    case 3
    from endsWith_last [OF this] show ?thesis by simp
  next
    case 4
    from endsWith_last [OF this] show ?thesis by simp
  qed simp_all
qed

lemma not_reserved_folder_key: "\<not> reservedName (x @ ''/'')"
  using reservedName_last [of "x @ ''/''"] by auto

lemma keepChild_not_reserved:
  assumes "\<forall>n. reservedName n \<longrightarrow> isSpecialFolderNameToSkip m n [''workspace'', ''workspace.json'']"
    and "keepChild m b c"
  shows "\<not> reservedName c"
  using assms by (auto simp: keepChild_def split: if_splits)

lemma pushedObs_keep:
  "c \<in> set (pushedObs m pluginId it) \<Longrightarrow>
   \<exists>ch. children it = Some ch \<and> c \<in> set (folders ch @ files ch) \<and>
        keepChild m (isPluginDirItself (key (itself it)) pluginId) c"
  by (cases "children it") (auto simp: pushedObs_def Let_def)

lemma listFilesInObsFolder_Inr_D:
  assumes "listFilesInObsFolder fuel m configDir vlt pluginId bookmarksOnly = Some (Inr out)"
  obtains st where "obsLoop fuel m configDir vlt pluginId bookmarksOnly (obsInit configDir) = Some (Inr st)"
    and "out = (if bookmarksOnly then bookmarksFilter configDir (contents st) else contents st)"
  using assms
  by (auto simp: listFilesInObsFolder_def split: option.splits sum.splits)

lemma set_out_subset:
  assumes "listFilesInObsFolder fuel m configDir vlt pluginId bookmarksOnly = Some (Inr out)"
  obtains st where "obsLoop fuel m configDir vlt pluginId bookmarksOnly (obsInit configDir) = Some (Inr st)"
    and "set out \<subseteq> set (contents st)"
proof -
  from listFilesInObsFolder_Inr_D [OF assms] obtain st where
    l: "obsLoop fuel m configDir vlt pluginId bookmarksOnly (obsInit configDir) = Some (Inr st)"
    and o: "out = (if bookmarksOnly then bookmarksFilter configDir (contents st) else contents st)"
    by blast
  from o have "set out \<subseteq> set (contents st)" by (auto simp: bookmarksFilter_def)
  with l that show ?thesis by blast
qed

lemma reserved_only_root:
  assumes contract: "\<forall>n. reservedName n \<longrightarrow> isSpecialFolderNameToSkip m n [''workspace'', ''workspace.json'']"
    and res: "listFilesInObsFolder fuel m configDir vlt pluginId bookmarksOnly = Some (Inr out)"
    and e: "e \<in> set out" "reservedName (key e)"
  shows "key e = configDir"
proof -
  from set_out_subset [OF res] obtain st where
    loop: "obsLoop fuel m configDir vlt pluginId bookmarksOnly (obsInit configDir) = Some (Inr st)"
    and sub: "set out \<subseteq> set (contents st)" by blast
  let ?Pq = "\<lambda>x. reservedName x \<longrightarrow> x = configDir"
  let ?Pe = "\<lambda>e. reservedName (key e) \<longrightarrow> key e = configDir"
  have step: "?Pe (itself it) \<and> (\<forall>c \<in> set (pushedObs m pluginId it). ?Pq c)"
    if "?Pq x" "fetchObs m configDir vlt x = Inr it" for x it
  proof -
    from fetchObs_Inr_D [OF that(2)] obtain s where "itself it = entityOf x s" by blast
    then have "key (itself it) = x \<or> key (itself it) = x @ ''/''" by (simp add: key_entityOf)
    with that(1) have "?Pe (itself it)" using not_reserved_folder_key by auto
    moreover have "\<forall>c \<in> set (pushedObs m pluginId it). ?Pq c"
      using keepChild_not_reserved [OF contract] pushedObs_keep by blast
    ultimately show ?thesis by simp
  qed
  have "(\<forall>x \<in> set (queue st). ?Pq x) \<and> (\<forall>e \<in> set (contents st). ?Pe e)"
    by (rule obsLoop_invariant [where Pq = ?Pq and Pe = ?Pe, OF step loop])
       (simp_all add: obsInit_def)
  with sub e show ?thesis by blast
qed

lemma obs_entities_from_stat:
  assumes res: "listFilesInObsFolder fuel m configDir vlt pluginId bookmarksOnly = Some (Inr out)"
    and e: "e \<in> set out"
  shows "\<exists>x st. statFix m vlt x = StatOk st \<and> e = entityOf x st"
proof -
  from set_out_subset [OF res] obtain st where
    loop: "obsLoop fuel m configDir vlt pluginId bookmarksOnly (obsInit configDir) = Some (Inr st)"
    and sub: "set out \<subseteq> set (contents st)" by blast
  let ?Pq = "\<lambda>x::string. True"
  let ?Pe = "\<lambda>e. \<exists>x st. statFix m vlt x = StatOk st \<and> e = entityOf x st"
  have step: "?Pe (itself it) \<and> (\<forall>c \<in> set (pushedObs m pluginId it). ?Pq c)"
    if "?Pq x" "fetchObs m configDir vlt x = Inr it" for x it
  proof -
    from fetchObs_Inr_D [OF that(2)] obtain s where
      "statFix m vlt x = StatOk s" "itself it = entityOf x s" by blast
    then show ?thesis by auto
  qed
  have "(\<forall>x \<in> set (queue st). ?Pq x) \<and> (\<forall>e \<in> set (contents st). ?Pe e)"
    by (rule obsLoop_invariant [where Pq = ?Pq and Pe = ?Pe, OF step loop])
       (simp_all add: obsInit_def)
  with sub e show ?thesis by blast
qed

lemma roots_entities_from_stat:
  assumes res: "listFilesByAdapterPaths fuel m roots vlt = Some (Inr out)"
    and e: "e \<in> set out"
  shows "\<exists>x st. statFix m vlt x = StatOk st \<and> e = entityOf x st"
proof -
  let ?Pq = "\<lambda>x::string. True"
  let ?Pe = "\<lambda>e. \<exists>x st. statFix m vlt x = StatOk st \<and> e = entityOf x st"
  have step: "?Pe (itself it) \<and> (\<forall>c \<in> set (pushedRoots (Some it)). ?Pq c)"
    if "?Pq x" "fetchRoots m vlt x = Inr (Some it)" for x it
  proof -
    from fetchRoots_Inr_D [OF that(2)] obtain s where
      "statFix m vlt x = StatOk s" "itself it = entityOf x s" by blast
    then show ?thesis by auto
  qed
  have "\<forall>e \<in> set out. ?Pe e"
    by (rule rootsLoop_invariant [where Pq = ?Pq and Pe = ?Pe, OF step res [unfolded listFilesByAdapterPaths_def]])
       simp_all
  with e show ?thesis by blast
qed

lemma entityOf_slash:
  "keyRaw (entityOf x st) = key (entityOf x st) \<and>
   (stype st = ''folder'' \<longrightarrow> endsWith (key (entityOf x st)) ''/'') \<and>
   (stype st \<noteq> ''folder'' \<longrightarrow> endsWith (key (entityOf x st)) ''/'' = endsWith x ''/'')"
  by (simp add: key_entityOf keyRaw_entityOf endsWith_def)





lemma root_file_bookmarks:
  assumes "statFix m vlt configDir = StatOk st" and "stype st = ''file''"
    and "mtime st = Some t" and "t \<noteq> 0"
  shows "obsLoop (Suc fuel) m configDir vlt pluginId True (obsInit configDir) =
           Some (Inr \<lparr> queue = [], contents = [entityOf configDir st], iterRound = 1 \<rparr>)"
    and "key (entityOf configDir st) = configDir"
    and "listFilesInObsFolder (Suc fuel) m configDir vlt pluginId True = Some (Inr [])"
proof -
  from assms have f: "fetchObs m configDir vlt configDir =
      Inr \<lparr> itself = entityOf configDir st, children = None \<rparr>"
    by (simp add: fetchObs_def)
  show l: "obsLoop (Suc fuel) m configDir vlt pluginId True (obsInit configDir) =
           Some (Inr \<lparr> queue = [], contents = [entityOf configDir st], iterRound = 1 \<rparr>)"
    by (simp add: obsLoop_Suc obsInit_def f pushedObs_def obsLoop_Nil)
  show k: "key (entityOf configDir st) = configDir"
    using assms(2) by (simp add: key_entityOf)
  show "listFilesInObsFolder (Suc fuel) m configDir vlt pluginId True = Some (Inr [])"
    by (simp add: listFilesInObsFolder_def l bookmarksFilter_def k)
qed









section \<open>Evaluation on the example storages\<close>

lemmas string_eval = startsWith_def endsWith_def suffix_to_prefix trim_def isWhiteSpace_def
  isRegexMetaChar_def

lemmas prefix_eval = extractLiteralPrefix_def getHiddenAllowListRoots_def arrayFromSet_def
  allowListStep_def isHiddenPathPrefix_def Let_def

lemmas table_eval = tableMisc_def tableVault_def skipBySpec_def aFolder_def aFile_def
  folderEntity_def fileEntity_def

lemmas obs_eval = listFilesInObsFolder_def obsInit_def obsLoop.simps obsLevel fetchObs_def
  entityOf_def pushedObs_def keepChild_def isPluginDirItself_def isLikelyPluginSubFiles_def
  reqFiles_def bookmarksFilter_def

lemmas roots_eval = listFilesByAdapterPaths_def rootsLoop.simps rootsLevel fetchRoots_def
  entityOf_def pushedRoots_def addedRoots_def uniqueRoots_def arrayFromSet_def

lemma skipBySpec_contract:
  "skipBySpec n [''workspace'', ''workspace.json''] = reservedName n"
  by (auto simp: skipBySpec_def reservedName_def)

section \<open>The claims\<close>

subsection \<open>C1: a path without metadata\<close>




subsection \<open>C2: three patterns\<close>

text \<open>
  C2, amended. \<open>getHiddenAllowListRoots\<close> gives \<open>.foo/bar\<close> on the pattern
  \<open>^\.foo/bar.*\<close> and nothing on \<open>plainname\<close>, whose prefix is not hidden; on \<open>.x\<close> it
  gives \<open>.x\<close>, a hidden prefix of length two, and it is on \<open>.\<close>, of length one, that it
  gives nothing.
\<close>

theorem allow_list_vectors:
  "getHiddenAllowListRoots (Some [CHR ''^'' # backslash # ''.foo/bar.*'']) = [''.foo/bar''] \<and>
   getHiddenAllowListRoots (Some [''plainname'']) = [] \<and>
   getHiddenAllowListRoots (Some [''.x'']) = [''.x''] \<and>
   getHiddenAllowListRoots (Some [''.'']) = []"
  by (simp add: prefix_eval string_eval)

text \<open>
  The prefix of \<open>.x\<close> has two characters, more than one, so the root is kept.
\<close>

theorem allow_list_dot_x_counterexample:
  "getHiddenAllowListRoots (Some [''.x'']) \<noteq> [] \<and>
   extractLiteralPrefix ''.x'' = ''.x'' \<and> length (extractLiteralPrefix ''.x'') = 2"
  by (simp add: prefix_eval string_eval)

subsection \<open>C3: the rounds of the bookmarks-only listing\<close>

text \<open>
  C3, amended. With \<open>bookmarksOnly\<close>, \<open>listFilesInObsFolder\<close> ends within three rounds,
  whatever the storage: the test \<open>iterRound > 1\<close> follows the processing of a round and
  precedes the increment, so the loop leaves after the rounds 0, 1 and 2, with
  \<open>iterRound\<close> at most 2.
\<close>

theorem bookmarks_only_three_rounds:
  "(\<exists>r. obsLoop (Suc (Suc (Suc fuel))) m configDir vlt pluginId True (obsInit configDir) = Some r \<and>
       (\<forall>st'. r = Inr st' \<longrightarrow> iterRound st' \<le> 2)) \<and>
   (\<exists>r. listFilesInObsFolder (Suc (Suc (Suc fuel))) m configDir vlt pluginId True = Some r)"
proof -
  from obsLoop_bookmarks_rounds [where fuel = "Suc (Suc (Suc fuel))" and st = "obsInit configDir"
      and m = m and configDir = configDir and vlt = vlt and pluginId = pluginId]
  obtain r where
    r: "obsLoop (Suc (Suc (Suc fuel))) m configDir vlt pluginId True (obsInit configDir) = Some r"
    and i: "\<forall>st'. r = Inr st' \<longrightarrow> iterRound st' \<le> 2"
    by (auto simp: obsInit_def)
  from r have "\<exists>r'. listFilesInObsFolder (Suc (Suc (Suc fuel))) m configDir vlt pluginId True = Some r'"
    unfolding listFilesInObsFolder_def by (cases r) simp_all
  with r i show ?thesis by blast
qed

theorem bookmarks_only_three_rounds_witness:
  "(\<exists>r. obsLoop 3 chainMisc ''c'' chainVault ''remotely-save'' True (obsInit ''c'') = Some r \<and>
       (\<forall>st'. r = Inr st' \<longrightarrow> iterRound st' \<le> 2)) \<and>
   (\<exists>r. listFilesInObsFolder 3 chainMisc ''c'' chainVault ''remotely-save'' True = Some r)"
  using bookmarks_only_three_rounds [where fuel = 0 and m = chainMisc and configDir = "''c''"
      and vlt = chainVault and pluginId = "''remotely-save''"]
  by (simp add: eval_nat_numeral)

text \<open>
  On the chain of folders the loop has not ended after two rounds, and its third round
  fetches the folder of the third level.
\<close>

theorem bookmarks_third_round_counterexample:
  "obsLoop 2 chainMisc ''c'' chainVault ''remotely-save'' True (obsInit ''c'') = None \<and>
   obsLoop 3 chainMisc ''c'' chainVault ''remotely-save'' True (obsInit ''c'') =
     Some (Inr \<lparr> queue = [''c/1/2/3''],
                 contents = [folderEntity ''c/'', folderEntity ''c/1/'', folderEntity ''c/1/2/''],
                 iterRound = 2 \<rparr>)"
  by (simp add: obs_eval chainMisc_def chainVault_def table_eval string_eval eval_nat_numeral)

subsection \<open>C4: the roots that seed the queue\<close>

text \<open>
  C4. The roots are made unique before they are trimmed: two roots that differ in the
  white space around them are both kept, and the queue starts with the same path twice.
  The roots \<open>.a\<close> and \<open>.a\<close> with a space are what \<open>getHiddenAllowListRoots\<close> gives for the
  patterns \<open>.a\<close> and \<open>.a *\<close>.
\<close>

theorem unique_roots_not_distinct:
  "getHiddenAllowListRoots (Some [''.a'', ''.a *'']) = [''.a'', ''.a ''] \<and>
   uniqueRoots [''.a'', ''.a ''] = [''.a'', ''.a''] \<and>
   \<not> distinct (uniqueRoots [''.a'', ''.a ''])"
  by (simp add: uniqueRoots_def prefix_eval string_eval)

subsection \<open>C5: the output of the bookmarks-only listing\<close>




subsection \<open>C6: reserved names\<close>

text \<open>
  C6, amended. When \<open>isSpecialFolderNameToSkip\<close> holds for every name that is, or ends
  with the segment, \<open>workspace\<close> or \<open>workspace.json\<close>, no entity in the output of
  \<open>listFilesInObsFolder\<close> has such a key, at any depth, but for an entity whose key is
  \<open>configDir\<close> itself: the configuration folder is fetched without this test.
\<close>

theorem reserved_names_only_root:
  assumes "\<forall>n. reservedName n \<longrightarrow> isSpecialFolderNameToSkip m n [''workspace'', ''workspace.json'']"
    and "listFilesInObsFolder fuel m configDir vlt pluginId bookmarksOnly = Some (Inr out)"
  shows "\<forall>e \<in> set out. key e \<noteq> configDir \<longrightarrow> \<not> reservedName (key e)"
  using reserved_only_root [OF assms] by blast

theorem reserved_names_only_root_witness:
  "listFilesInObsFolder 4 configMisc ''.obsidian'' configVault ''remotely-save'' False =
     Some (Inr [folderEntity ''.obsidian/'', folderEntity ''.obsidian/plugins/'',
                fileEntity ''.obsidian/bookmarks.json'',
                folderEntity ''.obsidian/plugins/remotely-save/'',
                fileEntity ''.obsidian/plugins/remotely-save/data.json'']) \<and>
   \<not> reservedName (key (fileEntity ''.obsidian/bookmarks.json''))"
proof -
  have c: "\<forall>n. reservedName n \<longrightarrow>
             isSpecialFolderNameToSkip configMisc n [''workspace'', ''workspace.json'']"
    by (simp add: configMisc_def tableMisc_def skipBySpec_contract)
  have r: "listFilesInObsFolder 4 configMisc ''.obsidian'' configVault ''remotely-save'' False =
     Some (Inr [folderEntity ''.obsidian/'', folderEntity ''.obsidian/plugins/'',
                fileEntity ''.obsidian/bookmarks.json'',
                folderEntity ''.obsidian/plugins/remotely-save/'',
                fileEntity ''.obsidian/plugins/remotely-save/data.json''])"
    by (simp add: obs_eval configMisc_def configVault_def table_eval string_eval eval_nat_numeral)
  from reserved_names_only_root [OF c r] r show ?thesis
    by (simp add: fileEntity_def)
qed

text \<open>
  A configuration root that is a file named \<open>workspace\<close> is in the output.
\<close>

theorem root_named_workspace_counterexample:
  "listFilesInObsFolder 1 filesMisc ''workspace'' filesVault ''remotely-save'' False =
     Some (Inr [fileEntity ''workspace'']) \<and>
   reservedName (key (fileEntity ''workspace''))"
  by (simp add: obs_eval filesMisc_def filesVault_def table_eval string_eval reservedName_def)

subsection \<open>C7: the plugin's own folder\<close>




subsection \<open>C8: the trailing slash of a key\<close>

text \<open>
  C8, amended. Every entity in the output of \<open>listFilesInObsFolder\<close> and of
  \<open>listFilesByAdapterPaths\<close> is the entity of a path \<open>x\<close> with metadata: \<open>key\<close> and
  \<open>keyRaw\<close> are equal; they end in a slash when the type is \<open>folder\<close>; and for any other
  type they are the path itself, which ends in a slash exactly when \<open>x\<close> does.
\<close>

theorem keys_end_in_slash:
  assumes "listFilesInObsFolder fuel m configDir vlt pluginId bookmarksOnly = Some (Inr out) \<or>
           listFilesByAdapterPaths fuel m roots vlt = Some (Inr out)"
    and "e \<in> set out"
  shows "\<exists>x st. statFix m vlt x = StatOk st \<and> e = entityOf x st \<and> keyRaw e = key e \<and>
           (stype st = ''folder'' \<longrightarrow> endsWith (key e) ''/'') \<and>
           (stype st \<noteq> ''folder'' \<longrightarrow> endsWith (key e) ''/'' = endsWith x ''/'')"
proof -
  from assms obs_entities_from_stat roots_entities_from_stat
  obtain x st where "statFix m vlt x = StatOk st" "e = entityOf x st" by metis
  with entityOf_slash [of x st] show ?thesis by blast
qed

theorem keys_end_in_slash_witness:
  "listFilesByAdapterPaths 1 filesMisc [''ok''] filesVault = Some (Inr [fileEntity ''ok'']) \<and>
   (\<exists>x st. statFix filesMisc filesVault x = StatOk st \<and> fileEntity ''ok'' = entityOf x st \<and>
      keyRaw (fileEntity ''ok'') = key (fileEntity ''ok'') \<and>
      (stype st = ''folder'' \<longrightarrow> endsWith (key (fileEntity ''ok'')) ''/'') \<and>
      (stype st \<noteq> ''folder'' \<longrightarrow> endsWith (key (fileEntity ''ok'')) ''/'' = endsWith x ''/''))"
proof -
  have r: "listFilesByAdapterPaths 1 filesMisc [''ok''] filesVault = Some (Inr [fileEntity ''ok''])"
    by (simp add: roots_eval filesMisc_def filesVault_def table_eval string_eval)
  have "fileEntity ''ok'' \<in> set [fileEntity ''ok'']" by simp
  from keys_end_in_slash [OF disjI2 [OF r] this] r show ?thesis by simp
qed

text \<open>
  A root that ends in a slash and whose type is \<open>file\<close> keeps its slash.
\<close>

theorem file_key_with_slash_counterexample:
  "statFix filesMisc filesVault ''a/'' =
     StatOk \<lparr> stype = ''file'', mtime = Some 1700000000000, ssize = 42 \<rparr> \<and>
   listFilesByAdapterPaths 1 filesMisc [''a/''] filesVault = Some (Inr [fileEntity ''a/'']) \<and>
   endsWith (key (fileEntity ''a/'')) ''/''"
  by (simp add: roots_eval filesMisc_def filesVault_def table_eval string_eval)

subsection \<open>C9: a configuration root that is a file\<close>

text \<open>
  C9. When the metadata of the configuration root has the type \<open>file\<close> and a
  modification time that is neither missing nor zero, the bookmarks-only listing returns
  the empty list after one round: the loop ends with the root's entity alone and an empty
  queue, and the key of this entity is \<open>configDir\<close>, which is neither of the two keys
  that the filter keeps.
\<close>

theorem root_file_bookmarks_only_empty:
  assumes "statFix m vlt configDir = StatOk st" and "stype st = ''file''"
    and "mtime st \<noteq> None" and "mtime st \<noteq> Some 0"
  shows "listFilesInObsFolder (Suc fuel) m configDir vlt pluginId True = Some (Inr []) \<and>
         obsLoop (Suc fuel) m configDir vlt pluginId True (obsInit configDir) =
           Some (Inr \<lparr> queue = [], contents = [entityOf configDir st], iterRound = 1 \<rparr>) \<and>
         key (entityOf configDir st) = configDir \<and>
         key (entityOf configDir st) \<noteq> configDir @ ''/'' \<and>
         key (entityOf configDir st) \<noteq> configDir @ ''/bookmarks.json''"
proof -
  from assms(3,4) obtain t where "mtime st = Some t" "t \<noteq> 0" by auto
  from root_file_bookmarks [OF assms(1,2) this] show ?thesis by simp
qed

theorem root_file_bookmarks_only_empty_witness:
  "statFix filesMisc filesVault ''ok'' =
     StatOk \<lparr> stype = ''file'', mtime = Some 1700000000000, ssize = 42 \<rparr> \<and>
   listFilesInObsFolder 1 filesMisc ''ok'' filesVault ''remotely-save'' True = Some (Inr [])"
proof -
  have s: "statFix filesMisc filesVault ''ok'' =
     StatOk \<lparr> stype = ''file'', mtime = Some 1700000000000, ssize = 42 \<rparr>"
    by (simp add: filesMisc_def table_eval)
  from root_file_bookmarks_only_empty [OF s, where fuel = 0 and pluginId = "''remotely-save''"] s
  show ?thesis by simp
qed

subsection \<open>C10: a pattern that ends in a backslash\<close>




end
